theory Spec2Isabelle
  imports Main "HOL-Library.Multiset"
begin

section \<open>Data model of App.tsx\<close>

text \<open>
  \<^verbatim>\<open>type QuestionType = 'multiple-choice' | 'multiple-answer' | 'true-false'\<close>
\<close>

datatype QuestionType = multiple_choice | multiple_answer | true_false

text \<open>
  The field \<^verbatim>\<open>correct: number | number[]\<close> is a union told apart at run time by
  \<^verbatim>\<open>Array.isArray\<close>; here it is a tagged value. Numbers that stand for choice
  indices are integers.
\<close>

datatype Correct = SingleIndex int | IndexArray "int list"

record QuestionData =
  prompt :: string
  type :: QuestionType
  choices :: "string list"
  correct :: Correct

definition quizData :: "QuestionData list" where
  "quizData =
    [\<lparr>prompt = ''Which of the following is a fruit?'', type = multiple_choice,
      choices = [''Carrot'', ''Apple'', ''Potato'', ''Celery''], correct = SingleIndex 1\<rparr>,
     \<lparr>prompt = ''Select all even numbers:'', type = multiple_answer,
      choices = [''1'', ''2'', ''3'', ''4''], correct = IndexArray [1, 3]\<rparr>,
     \<lparr>prompt = ''The sky is blue.'', type = true_false,
      choices = [''False'', ''True''], correct = SingleIndex 1\<rparr>]"

text \<open>
  A selection is the \<^verbatim>\<open>number[]\<close> held by one question screen. The answer array
  \<^verbatim>\<open>userAnswers: number[][]\<close> is a JavaScript array: a position beyond its length,
  or a hole left by a write past its end, reads as \<^verbatim>\<open>undefined\<close>. An element is
  therefore an optional selection, \<open>None\<close> standing for \<^verbatim>\<open>undefined\<close>.
\<close>

type_synonym selection = "int list"

type_synonym answers = "selection option list"

definition array_get :: "answers \<Rightarrow> nat \<Rightarrow> selection option" where
  \<comment> \<open>the read \<^verbatim>\<open>userAnswers[i]\<close>\<close>
  "array_get xs i = (if i < length xs then xs ! i else None)"

definition array_set :: "answers \<Rightarrow> nat \<Rightarrow> selection \<Rightarrow> answers" where
  \<comment> \<open>the write \<^verbatim>\<open>updatedAnswers[i] = v\<close>: past the end the array grows, leaving holes\<close>
  "array_set xs i v =
     (if i < length xs then xs[i := Some v]
      else xs @ replicate (i - length xs) None @ [Some v])"

text \<open>Calling a method on \<^verbatim>\<open>undefined\<close> throws a \<^verbatim>\<open>TypeError\<close>.\<close>

datatype error = TypeError

section \<open>The Summary component: grading\<close>

text \<open>
  \<^verbatim>\<open>
  const getCorrect = (correct: number | number[], selected: number[]) => {
    if (Array.isArray(correct)) {
      return (
        Array.isArray(selected) &&
        correct.length === selected.length &&
        correct.every((v) => selected.includes(v))
      );
    }
    return selected.includes(correct);
  };
  \<close>
  The array branch guards against an undefined \<^verbatim>\<open>selected\<close>; the other branch calls
  \<^verbatim>\<open>selected.includes\<close> unguarded.
\<close>

fun getCorrect :: "Correct \<Rightarrow> selection option \<Rightarrow> error + bool" where
  "getCorrect (IndexArray cs) None = Inr False"
| "getCorrect (IndexArray cs) (Some sel) =
     Inr (length cs = length sel \<and> list_all (\<lambda>v. v \<in> set sel) cs)"
| "getCorrect (SingleIndex c) None = Inl TypeError"
| "getCorrect (SingleIndex c) (Some sel) = Inr (c \<in> set sel)"

text \<open>
  \<^verbatim>\<open>
  const score = data.reduce((acc, q, i) => {
    return acc + (getCorrect(q.correct, userAnswers[i]) ? 1 : 0);
  }, 0);
  \<close>
  The reduction visits the questions in order with their positions; an exception thrown
  by the callback ends it.
\<close>

fun reduce_score :: "answers \<Rightarrow> nat \<Rightarrow> (nat \<times> QuestionData) list \<Rightarrow> error + nat" where
  "reduce_score userAnswers acc [] = Inr acc"
| "reduce_score userAnswers acc ((i, q) # rest) =
     (case getCorrect (correct q) (array_get userAnswers i) of
        Inl e \<Rightarrow> Inl e
      | Inr b \<Rightarrow> reduce_score userAnswers (acc + (if b then 1 else 0)) rest)"

definition score :: "QuestionData list \<Rightarrow> answers \<Rightarrow> error + nat" where
  "score data userAnswers = reduce_score userAnswers 0 (enumerate 0 data)"

text \<open>
  What the Summary screen shows in its first line,
  \<^verbatim>\<open>Total Score: {score} / {data.length}\<close>. The per-choice annotations below it read
  the answers through \<^verbatim>\<open>userAnswers[i]?.includes(idx)\<close> and cannot throw, so the
  screen renders exactly when the score is computed.
\<close>

record total_line =
  shown_score :: nat
  shown_total :: nat

definition Summary :: "QuestionData list \<Rightarrow> answers \<Rightarrow> error + total_line" where
  "Summary data userAnswers =
     (case score data userAnswers of
        Inl e \<Rightarrow> Inl e
      | Inr s \<Rightarrow> Inr \<lparr>shown_score = s, shown_total = length data\<rparr>)"

text \<open>The positions, paired with their questions, that grading counts as correct.\<close>

definition correct_positions :: "QuestionData list \<Rightarrow> answers \<Rightarrow> (nat \<times> QuestionData) list" where
  "correct_positions data userAnswers =
     filter (\<lambda>(i, q). getCorrect (correct q) (array_get userAnswers i) = Inr True)
       (enumerate 0 data)"

section \<open>The Question component: selecting choices\<close>

definition isMultipleAnswer :: "QuestionData \<Rightarrow> bool" where
  \<comment> \<open>\<^verbatim>\<open>question.type === 'multiple-answer'\<close>\<close>
  "isMultipleAnswer question = (type question = multiple_answer)"

text \<open>
  \<^verbatim>\<open>
  const handleSelect = (value: number) => {
    if (isMultipleAnswer) {
      setSelected((prev) =>
        prev.includes(value) ? prev.filter((v) => v !== value) : [...prev, value]
      );
    } else {
      setSelected([value]);
    }
  };
  \<close>
  The handler maps the previous selection to the next one; both branches build a new
  array and leave the previous one as it was.
\<close>

definition handleSelect :: "bool \<Rightarrow> int \<Rightarrow> selection \<Rightarrow> selection" where
  "handleSelect isMultiple value prev =
     (if isMultiple
      then (if value \<in> set prev then filter (\<lambda>v. v \<noteq> value) prev else prev @ [value])
      else [value])"

section \<open>Navigation: screens, answer arrays and the Next button\<close>

text \<open>
  Route parameters are passed by reference, so the answer arrays live in a store and a
  screen holds the address of its \<^verbatim>\<open>userAnswers\<close>. New arrays are allocated at
  \<open>next_free\<close>; the addresses below it are the allocated ones, and only those are held
  by the screens of a session. The selections stored inside an answer array are never
  written to after their creation and are kept as values.
\<close>

type_synonym addr = nat

text \<open>
  A Question screen carries its route parameters \<^verbatim>\<open>data\<close>, \<^verbatim>\<open>index\<close>,
  \<^verbatim>\<open>userAnswers\<close> and its state \<^verbatim>\<open>selected\<close>; a Summary screen carries
  \<^verbatim>\<open>data\<close> and \<^verbatim>\<open>userAnswers\<close>.
\<close>

datatype screen =
    QuestionScreen "QuestionData list" nat addr selection
  | SummaryScreen "QuestionData list" addr

record nav_state =
  heap :: "addr \<Rightarrow> answers"
  next_free :: addr
  stack :: "screen list"

text \<open>
  What a Question screen offers to the user. \<^verbatim>\<open>const question = data[index]\<close> is
  undefined for a position outside the data, and reading \<^verbatim>\<open>question.type\<close> then
  throws. Otherwise there is one pressable row per choice, and the Next button with
  \<^verbatim>\<open>disabled={selected.length === 0}\<close>.
\<close>

record question_view =
  shown_prompt :: string
  choice_buttons :: nat
  next_disabled :: bool

definition Question :: "QuestionData list \<Rightarrow> nat \<Rightarrow> selection \<Rightarrow> error + question_view" where
  "Question data index selected =
     (if index < length data
      then Inr \<lparr>shown_prompt = prompt (data ! index),
                choice_buttons = length (choices (data ! index)),
                next_disabled = (length selected = 0)\<rparr>
      else Inl TypeError)"

text \<open>
  \<^verbatim>\<open>
  const handleNext = () => {
    const updatedAnswers = [...userAnswers];
    updatedAnswers[index] = selected;
    if (index + 1 < data.length) {
      navigation.push('Question', { data, index: index + 1, userAnswers: updatedAnswers });
    } else {
      navigation.replace('Summary', { data, userAnswers: updatedAnswers });
    }
  };
  \<close>
  The spread allocates a new array holding the elements of \<^verbatim>\<open>userAnswers\<close>; the write
  goes to the new array. \<^verbatim>\<open>push\<close> puts a new screen, with its own empty
  \<^verbatim>\<open>selected\<close> state, on top of the stack; \<^verbatim>\<open>replace\<close> puts the new screen in
  the place of the focused one.
\<close>

definition handleNext ::
  "QuestionData list \<Rightarrow> nat \<Rightarrow> addr \<Rightarrow> selection \<Rightarrow> nav_state \<Rightarrow> nav_state" where
  "handleNext data index userAnswers selected st =
     (let updatedAnswers = next_free st;
          st1 = st\<lparr>heap := (heap st)(updatedAnswers := heap st userAnswers),
                   next_free := Suc updatedAnswers\<rparr>;
          st2 = st1\<lparr>heap := (heap st1)(updatedAnswers :=
                   array_set (heap st1 updatedAnswers) index selected)\<rparr>
      in if index + 1 < length data
         then st2\<lparr>stack := QuestionScreen data (index + 1) updatedAnswers [] # stack st2\<rparr>
         else st2\<lparr>stack := SummaryScreen data updatedAnswers # tl (stack st2)\<rparr>)"

text \<open>
  \<^verbatim>\<open>
  <Stack.Navigator>
    <Stack.Screen name="Question" component={Question}
      initialParams={{ data: quizData, index: 0, userAnswers: [] }} />
    <Stack.Screen name="Summary" component={Summary} />
  </Stack.Navigator>
  \<close>
  The navigator is used with its default options: nothing hides the header's back control
  or turns the back gesture off. So every focused screen with another screen beneath it
  can be left backwards: the focused screen is popped, and the screen beneath comes back
  with the parameters and the \<^verbatim>\<open>selected\<close> state it had. The bottom screen has
  nothing to go back to.
\<close>

definition goBack :: "nav_state \<Rightarrow> nav_state option" where
  "goBack st =
     (case stack st of
        s # s' # rest \<Rightarrow> Some (st\<lparr>stack := s' # rest\<rparr>)
      | _ \<Rightarrow> None)"

text \<open>
  The user's actions: pressing the row of a choice, pressing Next, going back. An action
  the focused screen does not offer (no such row, a disabled button, a choice or Next on
  the Summary screen, a screen that failed to render, back on the bottom screen) has no
  transition.
\<close>

datatype event = PressChoice nat | PressNext | PressBack

definition dispatch :: "event \<Rightarrow> nav_state \<Rightarrow> nav_state option" where
  "dispatch ev st =
     (case stack st of
        [] \<Rightarrow> None
      | SummaryScreen d a # rest \<Rightarrow>
          (case ev of
             PressChoice idx \<Rightarrow> None
           | PressNext \<Rightarrow> None
           | PressBack \<Rightarrow> goBack st)
      | QuestionScreen d i a sel # rest \<Rightarrow>
          (case Question d i sel of
             Inl e \<Rightarrow> None
           | Inr view \<Rightarrow>
               (case ev of
                  PressChoice idx \<Rightarrow>
                    if idx < choice_buttons view
                    then Some (st\<lparr>stack :=
                           QuestionScreen d i a
                             (handleSelect (isMultipleAnswer (d ! i)) (int idx) sel) # rest\<rparr>)
                    else None
                | PressNext \<Rightarrow>
                    if next_disabled view then None else Some (handleNext d i a sel st)
                | PressBack \<Rightarrow> goBack st)))"

fun run :: "event list \<Rightarrow> nav_state \<Rightarrow> nav_state option" where
  "run [] st = Some st"
| "run (ev # evs) st = (case dispatch ev st of None \<Rightarrow> None | Some st' \<Rightarrow> run evs st')"

text \<open>
  The application starts on the first question with
  \<^verbatim>\<open>initialParams={{ data: quizData, index: 0, userAnswers: [] }}\<close>; \<open>launch\<close> is
  the same start for any question list.
\<close>

definition launch :: "QuestionData list \<Rightarrow> nav_state" where
  "launch d = \<lparr>heap = (\<lambda>a. []), next_free = 1, stack = [QuestionScreen d 0 0 []]\<rparr>"

definition App :: nav_state where
  "App = launch quizData"

section \<open>Sessions: positions and the states a session can reach\<close>

text \<open>
  The position of a session is the index of the focused question; on the Summary screen
  it is the number of questions. A session is graded when the Summary screen is focused.
\<close>

fun screen_position :: "screen \<Rightarrow> nat" where
  "screen_position (QuestionScreen d i a sel) = i"
| "screen_position (SummaryScreen d a) = length d"

definition position :: "nav_state \<Rightarrow> nat" where
  "position st = (case stack st of [] \<Rightarrow> 0 | s # rest \<Rightarrow> screen_position s)"

fun is_summary :: "screen \<Rightarrow> bool" where
  "is_summary (QuestionScreen d i a sel) = False"
| "is_summary (SummaryScreen d a) = True"

definition graded :: "nav_state \<Rightarrow> bool" where
  "graded st = (case stack st of [] \<Rightarrow> False | s # rest \<Rightarrow> is_summary s)"

text \<open>
  An answer array is complete when every element is a committed selection: defined,
  not empty and free of repetitions.
\<close>

fun committed :: "selection option \<Rightarrow> bool" where
  "committed None = False"
| "committed (Some sel) = (sel \<noteq> [] \<and> distinct sel)"

text \<open>
  What holds of every screen of a session over the questions \<open>d\<close>: its answer array is
  allocated, is complete and has one entry for each question before the screen's own.
\<close>

fun screen_ok :: "QuestionData list \<Rightarrow> nav_state \<Rightarrow> screen \<Rightarrow> bool" where
  "screen_ok d st (QuestionScreen d' i a sel) =
     (d' = d \<and> a < next_free st \<and> length (heap st a) = i \<and> list_all committed (heap st a)
      \<and> (i < length d \<or> i = 0) \<and> distinct sel)"
| "screen_ok d st (SummaryScreen d' a) =
     (d' = d \<and> a < next_free st \<and> length (heap st a) = length d
      \<and> list_all committed (heap st a) \<and> d \<noteq> [])"

text \<open>
  The screens beneath the focused one are the question screens of the earlier positions,
  in order: beneath the question of position \<open>i\<close> lie \<open>i\<close> screens, beneath the
  Summary screen, which took the place of the last question, one less than there are
  questions.
\<close>

fun screens_beneath :: "screen \<Rightarrow> nat" where
  "screens_beneath (QuestionScreen d i a sel) = i"
| "screens_beneath (SummaryScreen d a) = length d - 1"

fun descending :: "screen list \<Rightarrow> nat \<Rightarrow> bool" where
  "descending [] k = (k = 0)"
| "descending (s # ss) k =
     (0 < k \<and> \<not> is_summary s \<and> screen_position s = k - 1 \<and> descending ss (k - 1))"

definition session_inv :: "QuestionData list \<Rightarrow> nav_state \<Rightarrow> bool" where
  "session_inv d st =
     (list_all (screen_ok d st) (stack st)
      \<and> (case stack st of [] \<Rightarrow> False | s # rest \<Rightarrow> descending rest (screens_beneath s)))"

text \<open>
  A session of the application that answers every built-in question correctly, and the
  state it ends in; then the state after going back from the Summary screen, and the
  state after answering the third question again, this time wrongly.
\<close>

definition sample_presses :: "event list" where
  "sample_presses =
     [PressChoice 1, PressNext, PressChoice 1, PressChoice 3, PressNext, PressChoice 1, PressNext]"

definition sample_graded :: nav_state where
  "sample_graded =
     \<lparr>heap = (\<lambda>a. [])(1 := [Some [1]], 2 := [Some [1], Some [1, 3]],
                       3 := [Some [1], Some [1, 3], Some [1]]),
      next_free = 4,
      stack = [SummaryScreen quizData 3, QuestionScreen quizData 1 1 [1, 3],
               QuestionScreen quizData 0 0 [1]]\<rparr>"

definition sample_back :: nav_state where
  "sample_back =
     \<lparr>heap = (\<lambda>a. [])(1 := [Some [1]], 2 := [Some [1], Some [1, 3]],
                       3 := [Some [1], Some [1, 3], Some [1]]),
      next_free = 4,
      stack = [QuestionScreen quizData 1 1 [1, 3], QuestionScreen quizData 0 0 [1]]\<rparr>"

definition sample_regraded :: nav_state where
  "sample_regraded =
     \<lparr>heap = (\<lambda>a. [])(1 := [Some [1]], 2 := [Some [1], Some [1, 3]],
                       3 := [Some [1], Some [1, 3], Some [1]],
                       4 := [Some [1], Some [1, 3]],
                       5 := [Some [1], Some [1, 3], Some [0]]),
      next_free = 6,
      stack = [SummaryScreen quizData 5, QuestionScreen quizData 1 1 [1, 3],
               QuestionScreen quizData 0 0 [1]]\<rparr>"

section \<open>Properties of grading and selecting\<close>

lemma reduce_score_total:
  assumes "\<forall>(i, q) \<in> set ps. getCorrect (correct q) (array_get ua i) \<noteq> Inl TypeError"
  shows "reduce_score ua acc ps =
    Inr (acc + length (filter (\<lambda>(i, q). getCorrect (correct q) (array_get ua i) = Inr True) ps))"
  using assms
proof (induction ps arbitrary: acc)
  case Nil
  then show ?case by simp
next
  case (Cons p ps)
  obtain i q where p: "p = (i, q)" by (cases p)
  from Cons.prems p have ok: "getCorrect (correct q) (array_get ua i) \<noteq> Inl TypeError"
    by simp
  then obtain b where b: "getCorrect (correct q) (array_get ua i) = Inr b"
    by (cases "getCorrect (correct q) (array_get ua i)") (auto intro: error.exhaust)
  from Cons.prems have rest: "\<forall>(i, q) \<in> set ps. getCorrect (correct q) (array_get ua i) \<noteq> Inl TypeError"
    by simp
  show ?case using Cons.IH[OF rest] p b by simp
qed

lemma getCorrect_throws_iff:
  "getCorrect c sel = Inl TypeError \<longleftrightarrow> (\<exists>k. c = SingleIndex k) \<and> sel = None"
  by (cases c; cases sel) simp_all

lemma multi_set_eq:
  assumes "distinct cs" "distinct sel"
  shows "(length cs = length sel \<and> list_all (\<lambda>v. v \<in> set sel) cs) \<longleftrightarrow> set sel = set cs"
proof
  assume h: "length cs = length sel \<and> list_all (\<lambda>v. v \<in> set sel) cs"
  then have sub: "set cs \<subseteq> set sel" by (auto simp: list_all_iff)
  have "card (set cs) = card (set sel)" using h assms by (simp add: distinct_card)
  with sub show "set sel = set cs" by (metis card_subset_eq finite_set)
next
  assume e: "set sel = set cs"
  then have "length cs = length sel" using assms by (metis distinct_card)
  with e show "length cs = length sel \<and> list_all (\<lambda>v. v \<in> set sel) cs" by (simp add: list_all_iff)
qed

lemma handleSelect_multi_set:
  "set (handleSelect True v prev) = (if v \<in> set prev then set prev - {v} else insert v (set prev))"
  by (auto simp: handleSelect_def)

lemma handleSelect_distinct: "distinct prev \<Longrightarrow> distinct (handleSelect m v prev)"
  by (auto simp: handleSelect_def)

lemma handleSelect_twice: "set (handleSelect True v (handleSelect True v prev)) = set prev"
  by (auto simp: handleSelect_def)

lemma handleSelect_twice_mset:
  "distinct prev \<Longrightarrow> mset (handleSelect True v (handleSelect True v prev)) = mset prev"
  by (induction prev) (auto simp: handleSelect_def)

lemma getCorrect_mset:
  assumes "mset sel = mset sel'"
  shows "getCorrect c (Some sel) = getCorrect c (Some sel')"
proof -
  from assms have "set sel = set sel'" and "length sel = length sel'"
    by (auto dest: mset_eq_setD mset_eq_length)
  then show ?thesis by (cases c) simp_all
qed

lemma correct_positions_iff:
  "(i, q) \<in> set (correct_positions d ua) \<longleftrightarrow>
     i < length d \<and> q = d ! i \<and> getCorrect (correct q) (array_get ua i) = Inr True"
  by (auto simp: correct_positions_def in_set_enumerate_eq)

lemma score_total:
  assumes "\<forall>i < length d. (\<exists>c. correct (d ! i) = SingleIndex c) \<longrightarrow> array_get ua i \<noteq> None"
  shows "score d ua = Inr (length (correct_positions d ua))"
proof -
  have "\<forall>(i, q) \<in> set (enumerate 0 d). getCorrect (correct q) (array_get ua i) \<noteq> Inl TypeError"
    using assms by (auto simp: in_set_enumerate_eq getCorrect_throws_iff)
  then show ?thesis
    by (simp add: score_def correct_positions_def reduce_score_total)
qed

lemma reduce_score_throws:
  assumes "(i, q) \<in> set ps" and "getCorrect (correct q) (array_get ua i) = Inl TypeError"
  shows "reduce_score ua acc ps = Inl TypeError"
  using assms
proof (induction ps arbitrary: acc)
  case Nil
  then show ?case by simp
next
  case (Cons p ps)
  show ?case
  proof (cases "p = (i, q)")
    case True
    with Cons.prems show ?thesis by simp
  next
    case False
    with Cons.prems have "(i, q) \<in> set ps" by simp
    then have "reduce_score ua acc' ps = Inl TypeError" for acc'
      using Cons.IH Cons.prems(2) by blast
    then show ?thesis
      by (cases p) (auto split: sum.splits intro: error.exhaust)
  qed
qed

section \<open>Properties of arrays, handlers and sessions\<close>

lemma array_set_length: "length (array_set xs i v) = max (length xs) (Suc i)"
  by (auto simp: array_set_def)

lemma array_get_set_same: "array_get (array_set xs i v) i = Some v"
  by (auto simp: array_get_def array_set_def nth_append)

lemma array_get_set_other: "j \<noteq> i \<Longrightarrow> array_get (array_set xs i v) j = array_get xs j"
  by (auto simp: array_get_def array_set_def nth_append)

lemma array_set_end: "length xs = i \<Longrightarrow> array_set xs i v = xs @ [Some v]"
  by (simp add: array_set_def)

lemma Question_Inr_iff:
  "Question d i sel = Inr view \<longleftrightarrow>
     i < length d \<and> view = \<lparr>shown_prompt = prompt (d ! i),
       choice_buttons = length (choices (d ! i)), next_disabled = (sel = [])\<rparr>"
  by (auto simp: Question_def)

lemma dispatch_PressNext:
  "dispatch PressNext st = Some st' \<longleftrightarrow>
     (\<exists>d i a sel rest. stack st = QuestionScreen d i a sel # rest \<and> i < length d \<and> sel \<noteq> []
        \<and> st' = handleNext d i a sel st)"
  by (auto simp: dispatch_def Question_def split: list.splits screen.splits sum.splits)

lemma dispatch_PressChoice:
  "dispatch (PressChoice idx) st = Some st' \<longleftrightarrow>
     (\<exists>d i a sel rest. stack st = QuestionScreen d i a sel # rest \<and> i < length d
        \<and> idx < length (choices (d ! i))
        \<and> st' = st\<lparr>stack := QuestionScreen d i a
                 (handleSelect (isMultipleAnswer (d ! i)) (int idx) sel) # rest\<rparr>)"
  by (auto simp: dispatch_def Question_def split: list.splits screen.splits sum.splits)

lemma dispatch_PressBack:
  "dispatch PressBack st = Some st' \<longleftrightarrow>
     (\<exists>s s' rest. stack st = s # s' # rest \<and> st' = st\<lparr>stack := s' # rest\<rparr>
        \<and> (\<forall>d i a sel. s = QuestionScreen d i a sel \<longrightarrow> i < length d))"
  by (auto simp: dispatch_def goBack_def Question_def split: list.splits screen.splits)

lemma dispatch_Summary:
  "stack st = SummaryScreen d a # rest \<Longrightarrow>
     dispatch PressNext st = None \<and> dispatch (PressChoice idx) st = None"
  by (simp add: dispatch_def)

lemma handleNext_stack:
  "stack (handleNext d i a sel st) =
     (if i + 1 < length d then QuestionScreen d (i + 1) (next_free st) [] # stack st
      else SummaryScreen d (next_free st) # tl (stack st))"
  by (simp add: handleNext_def Let_def)

lemma handleNext_heap:
  "heap (handleNext d i a sel st) =
     (heap st)(next_free st := array_set (heap st a) i sel)"
  by (simp add: handleNext_def Let_def)

lemma handleNext_next_free: "next_free (handleNext d i a sel st) = Suc (next_free st)"
  by (simp add: handleNext_def Let_def)

lemma screen_ok_mono:
  assumes "screen_ok d st s" and "next_free st \<le> next_free st'"
    and "\<forall>b < next_free st. heap st' b = heap st b"
  shows "screen_ok d st' s"
  using assms by (cases s) auto

lemma screen_ok_stack [simp]: "screen_ok d (st\<lparr>stack := ss\<rparr>) s = screen_ok d st s"
  by (cases s) simp_all

lemma session_inv_launch: "session_inv d (launch d)"
  by (simp add: session_inv_def launch_def)

lemma session_inv_top_data:
  "session_inv d st \<Longrightarrow> stack st = QuestionScreen d' i a sel # rest \<Longrightarrow> d' = d"
  by (simp add: session_inv_def)

lemma session_inv_goBack:
  assumes "session_inv d st" and "stack st = s # s' # rest"
  shows "session_inv d (st\<lparr>stack := s' # rest\<rparr>)"
    and "\<not> is_summary s'" and "Suc (screen_position s') = screens_beneath s"
proof -
  from assms have d: "descending (s' # rest) (screens_beneath s)"
    and oks: "list_all (screen_ok d st) (s' # rest)"
    by (simp_all add: session_inv_def)
  from d show q: "\<not> is_summary s'" and p: "Suc (screen_position s') = screens_beneath s"
    by simp_all
  from q have "screens_beneath s' = screen_position s'"
    by (cases s') simp_all
  with d p have "descending rest (screens_beneath s')"
    by simp
  with oks show "session_inv d (st\<lparr>stack := s' # rest\<rparr>)"
    by (simp add: session_inv_def list_all_iff)
qed

lemma session_inv_handleNext:
  assumes inv: "session_inv d st" and top: "stack st = QuestionScreen d i a sel # rest"
    and i: "i < length d" and sel: "sel \<noteq> []"
  shows "session_inv d (handleNext d i a sel st)"
proof -
  let ?st' = "handleNext d i a sel st"
  from inv top have ok: "screen_ok d st (QuestionScreen d i a sel)"
    and oks: "list_all (screen_ok d st) (stack st)"
    and qs: "descending rest i"
    by (simp_all add: session_inv_def)
  then have a: "a < next_free st" and len: "length (heap st a) = i"
    and comm: "list_all committed (heap st a)" and dsel: "distinct sel"
    by simp_all
  have old: "\<forall>b < next_free st. heap ?st' b = heap st b"
    by (simp add: handleNext_heap)
  have nf: "next_free st \<le> next_free ?st'"
    by (simp add: handleNext_next_free)
  have keep: "list_all (screen_ok d ?st') (stack st)"
    using oks screen_ok_mono[OF _ nf old] by (auto simp: list_all_iff)
  have new: "heap ?st' (next_free st) = heap st a @ [Some sel]"
    by (simp add: handleNext_heap array_set_end len)
  have noq: "descending (stack st) (i + 1)"
    using qs top by simp
  show ?thesis
  proof (cases "i + 1 < length d")
    case True
    then have st: "stack ?st' = QuestionScreen d (i + 1) (next_free st) [] # stack st"
      by (simp add: handleNext_stack)
    have "screen_ok d ?st' (QuestionScreen d (i + 1) (next_free st) [])"
      using True len comm sel dsel by (simp add: new handleNext_next_free)
    with keep noq show ?thesis
      by (simp add: session_inv_def st)
  next
    case False
    then have st: "stack ?st' = SummaryScreen d (next_free st) # rest"
      by (simp add: handleNext_stack top)
    from False i have ld: "length d = i + 1" by simp
    then have "screen_ok d ?st' (SummaryScreen d (next_free st))"
      using len comm sel dsel by (auto simp add: new handleNext_next_free)
    moreover from keep top have "list_all (screen_ok d ?st') rest" by simp
    ultimately show ?thesis using qs ld
      by (simp add: session_inv_def st)
  qed
qed

lemma session_inv_dispatch:
  assumes "session_inv d st" and "dispatch ev st = Some st'"
  shows "session_inv d st'"
proof (cases ev)
  case (PressChoice idx)
  with assms(2) obtain d' i a sel rest where
    top: "stack st = QuestionScreen d' i a sel # rest" and
    st': "st' = st\<lparr>stack := QuestionScreen d' i a
                 (handleSelect (isMultipleAnswer (d' ! i)) (int idx) sel) # rest\<rparr>"
    by (auto simp: dispatch_PressChoice)
  from assms(1) top show ?thesis
    by (simp add: session_inv_def st' handleSelect_distinct list_all_iff)
next
  case PressNext
  with assms(2) obtain d' i a sel rest where
    "stack st = QuestionScreen d' i a sel # rest" "i < length d'" "sel \<noteq> []"
    "st' = handleNext d' i a sel st"
    by (auto simp: dispatch_PressNext)
  with assms(1) show ?thesis
    using session_inv_top_data[OF assms(1)] by (auto intro: session_inv_handleNext)
next
  case PressBack
  with assms(2) obtain s s' rest where
    "stack st = s # s' # rest" "st' = st\<lparr>stack := s' # rest\<rparr>"
    by (auto simp: dispatch_PressBack)
  with assms(1) show ?thesis
    by (simp add: session_inv_goBack(1))
qed

lemma session_inv_run:
  "session_inv d st \<Longrightarrow> run evs st = Some st' \<Longrightarrow> session_inv d st'"
  by (induction evs arbitrary: st) (auto split: option.splits dest: session_inv_dispatch)

lemma position_dispatch:
  "dispatch PressNext st = Some st' \<Longrightarrow> position st' = position st + 1"
  "dispatch (PressChoice idx) st = Some st' \<Longrightarrow> position st' = position st"
  by (auto simp: dispatch_PressNext dispatch_PressChoice position_def handleNext_stack)

lemma dispatch_graded:
  "graded st \<Longrightarrow> dispatch PressNext st = None \<and> dispatch (PressChoice idx) st = None"
  by (auto simp: graded_def dispatch_def split: list.splits screen.splits)

lemma App_session: "run sample_presses App = Some sample_graded"
  unfolding sample_presses_def sample_graded_def App_def
  apply (simp add: launch_def dispatch_def Question_def handleNext_def handleSelect_def
      isMultipleAnswer_def array_set_def Let_def)
  apply (simp add: quizData_def numeral_2_eq_2 numeral_3_eq_3)
  done

lemma App_session_back: "dispatch PressBack sample_graded = Some sample_back"
  by (simp add: sample_graded_def sample_back_def dispatch_def goBack_def)

lemma App_session_again:
  "run [PressNext, PressChoice 0, PressNext] sample_back = Some sample_regraded"
  unfolding sample_back_def sample_regraded_def
  apply (simp add: dispatch_def Question_def handleNext_def handleSelect_def
      isMultipleAnswer_def array_set_def Let_def)
  apply (simp add: quizData_def eval_nat_numeral)
  done

lemma run_append:
  "run (xs @ ys) st = (case run xs st of None \<Rightarrow> None | Some st' \<Rightarrow> run ys st')"
  by (induction xs arbitrary: st) (simp_all split: option.splits)

lemma Summary_App_session:
  "Summary quizData (heap sample_graded 3) = Inr \<lparr>shown_score = 3, shown_total = 3\<rparr>"
  by (simp add: sample_graded_def Summary_def score_def quizData_def array_get_def)

section \<open>Grading a whole answer array\<close>

lemma Summary_throws:
  assumes "i < length d" and "correct (d ! i) = SingleIndex c" and "array_get ua i = None"
  shows "Summary d ua = Inl TypeError"
proof -
  have "(i, d ! i) \<in> set (enumerate 0 d)"
    using assms(1) by (simp add: in_set_enumerate_eq)
  moreover have "getCorrect (correct (d ! i)) (array_get ua i) = Inl TypeError"
    using assms by simp
  ultimately have "score d ua = Inl TypeError"
    unfolding score_def by (rule reduce_score_throws)
  then show ?thesis by (simp add: Summary_def)
qed

lemma Summary_total:
  assumes "\<forall>i < length d. (\<exists>c. correct (d ! i) = SingleIndex c) \<longrightarrow> array_get ua i \<noteq> None"
  shows "Summary d ua = Inr \<lparr>shown_score = length (correct_positions d ua), shown_total = length d\<rparr>"
  using score_total[OF assms] by (simp add: Summary_def)

lemma committed_array_get:
  "list_all committed xs \<Longrightarrow> i < length xs \<Longrightarrow> array_get xs i \<noteq> None"
proof -
  assume "list_all committed xs" and i: "i < length xs"
  then have "committed (xs ! i)" by (simp add: list_all_length)
  then have "xs ! i \<noteq> None" by (cases "xs ! i") simp_all
  with i show ?thesis by (simp add: array_get_def)
qed

lemma Summary_after_session:
  assumes "run evs (launch d) = Some st" and "stack st = SummaryScreen d' a # rest"
  shows "Summary d' (heap st a) =
     Inr \<lparr>shown_score = length (correct_positions d' (heap st a)), shown_total = length d'\<rparr>"
proof -
  have "session_inv d st"
    using session_inv_launch assms(1) by (rule session_inv_run)
  with assms(2) have "length (heap st a) = length d'" and "list_all committed (heap st a)"
    by (simp_all add: session_inv_def)
  then show ?thesis
    by (intro Summary_total) (simp add: committed_array_get)
qed

section \<open>The claims about grading\<close>

text \<open>
  C1. The claim: grading never fails, and a missing entry of the answer array counts as an
  empty selection, so that its question is graded incorrect, whether \<^verbatim>\<open>correct\<close> is a
  single index or an array. The code does so only for an array: for a single index
  \<^verbatim>\<open>getCorrect\<close> calls \<^verbatim>\<open>includes\<close> on \<^verbatim>\<open>undefined\<close>. With the built-in
  questions and the empty answer array, grading the first question throws, and so do the
  score and the Summary screen; the second question, whose \<^verbatim>\<open>correct\<close> is an array,
  is graded incorrect.
\<close>

theorem grading_missing_entry_throws:
  "getCorrect (correct (quizData ! 0)) (array_get [] 0) = Inl TypeError
   \<and> score quizData [] = Inl TypeError
   \<and> Summary quizData [] = Inl TypeError
   \<and> getCorrect (correct (quizData ! 1)) (array_get [] 1) = Inr False"
  by (simp add: Summary_def score_def quizData_def array_get_def)

text \<open>
  C2. A question whose \<^verbatim>\<open>correct\<close> is a set of indices (an array without repetitions)
  is graded correct if and only if the selection at its position, itself without
  repetitions, has exactly the members of \<^verbatim>\<open>correct\<close>: the same number of members,
  every member of \<^verbatim>\<open>correct\<close> selected, nothing else selected. The question is then
  among the positions the score counts. With \<^verbatim>\<open>correct = [1, 3]\<close> the selection
  \<open>[1, 3]\<close> is correct, \<open>[1, 3, 2]\<close> and \<open>[1]\<close> are not.
\<close>

theorem getCorrect_IndexArray_same_members:
  assumes "correct q = IndexArray cs" and "distinct cs"
    and "array_get ua i = Some sel" and "distinct sel"
  shows "getCorrect (correct q) (array_get ua i) = Inr (set sel = set cs)
    \<and> ((set sel = set cs) \<longleftrightarrow>
          (card (set sel) = card (set cs) \<and> set cs \<subseteq> set sel \<and> set sel \<subseteq> set cs))
    \<and> (i < length d \<and> d ! i = q \<longrightarrow>
          ((i, q) \<in> set (correct_positions d ua) \<longleftrightarrow> set sel = set cs))
    \<and> getCorrect (IndexArray [1, 3]) (Some [1, 3]) = Inr True
    \<and> getCorrect (IndexArray [1, 3]) (Some [1, 3, 2]) = Inr False
    \<and> getCorrect (IndexArray [1, 3]) (Some [1]) = Inr False"
proof -
  have g: "getCorrect (correct q) (array_get ua i) = Inr (set sel = set cs)"
    using assms by (simp add: multi_set_eq)
  have "(i, q) \<in> set (correct_positions d ua) \<longleftrightarrow> set sel = set cs"
    if "i < length d" "d ! i = q"
    using that g by (auto simp: correct_positions_iff)
  with g show ?thesis by auto
qed

theorem getCorrect_IndexArray_same_members_witness:
  "correct (quizData ! 1) = IndexArray [1, 3] \<and> distinct [1, 3 :: int]
   \<and> array_get [Some [1], Some [3, 1]] 1 = Some [3, 1] \<and> distinct [3, 1 :: int]
   \<and> getCorrect (correct (quizData ! 1)) (array_get [Some [1], Some [3, 1]] 1) = Inr True
   \<and> (1, quizData ! 1) \<in> set (correct_positions quizData [Some [1], Some [3, 1]])"
proof -
  have h1: "correct (quizData ! 1) = IndexArray [1, 3]" by (simp add: quizData_def)
  have h2: "distinct [1, 3 :: int]" by simp
  have h3: "array_get [Some [1], Some [3, 1]] 1 = Some [3, 1]" by (simp add: array_get_def)
  have h4: "distinct [3, 1 :: int]" by simp
  have h5: "1 < length quizData \<and> quizData ! 1 = quizData ! 1" by (simp add: quizData_def)
  have s: "set [3, 1 :: int] = set [1, 3]" by auto
  show ?thesis
    using getCorrect_IndexArray_same_members[OF h1 h2 h3 h4, of quizData] h1 h2 h3 h4 h5 s by simp
qed

text \<open>
  C3. A question whose \<^verbatim>\<open>correct\<close> is a single index is graded correct if and only if
  that index is a member of the selection at its position; the selection need not be
  equal to it. With \<^verbatim>\<open>correct = 1\<close> the selections \<open>[1]\<close> and \<open>[0, 1]\<close> are
  correct, \<open>[0]\<close> is not.
\<close>

theorem getCorrect_SingleIndex_member:
  assumes "correct q = SingleIndex c" and "array_get ua i = Some sel"
  shows "getCorrect (correct q) (array_get ua i) = Inr (c \<in> set sel)
    \<and> (i < length d \<and> d ! i = q \<longrightarrow>
          ((i, q) \<in> set (correct_positions d ua) \<longleftrightarrow> c \<in> set sel))
    \<and> getCorrect (SingleIndex 1) (Some [1]) = Inr True
    \<and> getCorrect (SingleIndex 1) (Some [0, 1]) = Inr True
    \<and> getCorrect (SingleIndex 1) (Some [0]) = Inr False"
  using assms by (auto simp: correct_positions_iff)

theorem getCorrect_SingleIndex_member_witness:
  "correct (quizData ! 0) = SingleIndex 1 \<and> array_get [Some [0, 1]] 0 = Some [0, 1]
   \<and> getCorrect (correct (quizData ! 0)) (array_get [Some [0, 1]] 0) = Inr True
   \<and> (0, quizData ! 0) \<in> set (correct_positions quizData [Some [0, 1]])"
proof -
  have h1: "correct (quizData ! 0) = SingleIndex 1" by (simp add: quizData_def)
  have h2: "array_get [Some [0, 1]] 0 = Some [0, 1]" by (simp add: array_get_def)
  have h3: "0 < length quizData \<and> quizData ! 0 = quizData ! 0" by (simp add: quizData_def)
  show ?thesis
    using getCorrect_SingleIndex_member[OF h1 h2, of quizData] h1 h2 h3 by simp
qed

text \<open>
  C4. The claim: for every question list and every answer array, grading gives a score
  equal to the number of questions graded correct and a total equal to the number of
  questions. The code does so whenever every question with a single correct index has an
  entry (\<open>Summary_total\<close>), and for the two answer arrays of the claim: for the three
  built-in questions \<open>[[1], [1, 3], [1]]\<close> gives 3 of 3 with every question correct,
  \<open>[[0], [1], [0]]\<close> gives 0 of 3 with no question correct. For an answer array with a
  missing entry it gives no score at all: with the first two questions answered
  correctly and the third entry missing, grading the third question throws, where the
  claim has a score of 2 and a total of 3.
\<close>

theorem Summary_missing_entry_no_score:
  "array_get [Some [1], Some [1, 3]] 2 = None
   \<and> getCorrect (correct (quizData ! 0)) (array_get [Some [1], Some [1, 3]] 0) = Inr True
   \<and> getCorrect (correct (quizData ! 1)) (array_get [Some [1], Some [1, 3]] 1) = Inr True
   \<and> getCorrect (correct (quizData ! 2)) (array_get [Some [1], Some [1, 3]] 2) = Inl TypeError
   \<and> score quizData [Some [1], Some [1, 3]] = Inl TypeError
   \<and> Summary quizData [Some [1], Some [1, 3]] = Inl TypeError
   \<and> Summary quizData [Some [1], Some [1, 3], Some [1]] =
        Inr \<lparr>shown_score = 3, shown_total = 3\<rparr>
   \<and> correct_positions quizData [Some [1], Some [1, 3], Some [1]] = enumerate 0 quizData
   \<and> Summary quizData [Some [0], Some [1], Some [0]] =
        Inr \<lparr>shown_score = 0, shown_total = 3\<rparr>
   \<and> correct_positions quizData [Some [0], Some [1], Some [0]] = []"
proof -
  have "array_get [Some [1], Some [1, 3]] 2 = None"
    by (simp add: array_get_def)
  moreover have
    "getCorrect (correct (quizData ! 0)) (array_get [Some [1], Some [1, 3]] 0) = Inr True"
    by (simp add: quizData_def array_get_def)
  moreover have
    "getCorrect (correct (quizData ! 1)) (array_get [Some [1], Some [1, 3]] 1) = Inr True"
    by (simp add: quizData_def array_get_def)
  moreover have
    "getCorrect (correct (quizData ! 2)) (array_get [Some [1], Some [1, 3]] 2) = Inl TypeError"
    by (simp add: quizData_def array_get_def)
  moreover have "score quizData [Some [1], Some [1, 3]] = Inl TypeError"
    by (simp add: score_def quizData_def array_get_def)
  moreover have "Summary quizData [Some [1], Some [1, 3]] = Inl TypeError"
    by (simp add: Summary_def score_def quizData_def array_get_def)
  moreover have "Summary quizData [Some [1], Some [1, 3], Some [1]] =
        Inr \<lparr>shown_score = 3, shown_total = 3\<rparr>"
    by (simp add: Summary_def score_def quizData_def array_get_def)
  moreover have
    "correct_positions quizData [Some [1], Some [1, 3], Some [1]] = enumerate 0 quizData"
    by (simp add: correct_positions_def quizData_def array_get_def)
  moreover have "Summary quizData [Some [0], Some [1], Some [0]] =
        Inr \<lparr>shown_score = 0, shown_total = 3\<rparr>"
    by (simp add: Summary_def score_def quizData_def array_get_def)
  moreover have "correct_positions quizData [Some [0], Some [1], Some [0]] = []"
    by (simp add: correct_positions_def quizData_def array_get_def)
  ultimately show ?thesis
    by (intro conjI)
qed

section \<open>The claims about the session\<close>

text \<open>
  C5. The claim: a commit at position \<open>i\<close> leads to position \<open>i + 1\<close> with an empty
  selection while \<open>i + 1\<close> is below the number of questions, and at the last position
  to the graded state with an answer array as long as the question list; the graded
  state is terminal, is reached exactly once, and there is no transition back. The
  commits are as claimed; the rest fails, since the navigator keeps its back control. The
  built-in session ends graded; going back from there leads to the second question,
  which is not graded and at a lower position, and answering again grades a second time.
\<close>

theorem graded_left_and_reached_again:
  "run sample_presses App = Some sample_graded
   \<and> graded sample_graded \<and> position sample_graded = 3
   \<and> dispatch PressBack sample_graded = Some sample_back
   \<and> \<not> graded sample_back \<and> position sample_back = 1
   \<and> run [PressNext, PressChoice 0, PressNext] sample_back = Some sample_regraded
   \<and> graded sample_regraded
   \<and> run (sample_presses @ [PressBack, PressNext, PressChoice 0, PressNext]) App =
       Some sample_regraded"
proof -
  have g: "graded sample_graded" and g': "position sample_graded = 3"
    by (simp_all add: sample_graded_def graded_def position_def quizData_def)
  have b: "\<not> graded sample_back" and b': "position sample_back = 1"
    by (simp_all add: sample_back_def graded_def position_def)
  have r: "graded sample_regraded"
    by (simp add: sample_regraded_def graded_def)
  have all: "run (sample_presses @ [PressBack, PressNext, PressChoice 0, PressNext]) App =
       Some sample_regraded"
    using App_session App_session_back App_session_again
    by (simp add: run_append)
  from App_session g g' App_session_back b b' App_session_again r all show ?thesis
    by (intro conjI)
qed

text \<open>
  C5, as the code has it. In every state a session reaches from its start, some screen is
  focused, and a focused question screen shows a question of the list and holds one
  answer for each question before it. Pressing Next with a selection at position \<open>i\<close>
  pushes the question screen of position \<open>i + 1\<close> with an empty selection while
  \<open>i + 1\<close> is below the number of questions; at the last position it puts the Summary
  screen in place of the question, with an answer array as long as the question list.
  In the graded state the position is the number of questions, and neither Next nor a
  choice has a transition. Going back has a transition exactly when a screen lies
  beneath the focused one: it leads to that screen, a question screen, one position
  below the focused question, and from the Summary screen to the last question but one.
\<close>

theorem session_state_machine:
  assumes "run evs (launch d) = Some st"
  shows "(\<exists>s rest. stack st = s # rest)
    \<and> (\<forall>d' i a sel rest. stack st = QuestionScreen d' i a sel # rest \<longrightarrow>
          d' = d \<and> length (heap st a) = i \<and> (d \<noteq> [] \<longrightarrow> i < length d))
    \<and> (\<forall>i a sel rest.
          stack st = QuestionScreen d i a sel # rest \<and> sel \<noteq> [] \<and> i + 1 < length d \<longrightarrow>
          (\<exists>st'. dispatch PressNext st = Some st'
             \<and> stack st' = QuestionScreen d (i + 1) (next_free st) [] # stack st
             \<and> position st' = position st + 1))
    \<and> (\<forall>i a sel rest.
          stack st = QuestionScreen d i a sel # rest \<and> sel \<noteq> [] \<and> i + 1 = length d \<longrightarrow>
          (\<exists>st'. dispatch PressNext st = Some st'
             \<and> stack st' = SummaryScreen d (next_free st) # rest \<and> graded st'
             \<and> length (heap st' (next_free st)) = length d))
    \<and> (graded st \<longrightarrow>
          d \<noteq> [] \<and> position st = length d \<and> dispatch PressNext st = None
          \<and> (\<forall>idx. dispatch (PressChoice idx) st = None))
    \<and> (\<forall>s s' rest. stack st = s # s' # rest \<longrightarrow>
          dispatch PressBack st = Some (st\<lparr>stack := s' # rest\<rparr>)
          \<and> \<not> is_summary s'
          \<and> Suc (screen_position s') = (if is_summary s then length d - 1 else screen_position s))
    \<and> (\<forall>s. stack st = [s] \<longrightarrow> dispatch PressBack st = None)"
proof -
  have inv: "session_inv d st"
    using session_inv_launch assms by (rule session_inv_run)
  have ne: "\<exists>s rest. stack st = s # rest"
    using inv by (cases "stack st") (simp_all add: session_inv_def)
  have top: "d' = d \<and> length (heap st a) = i \<and> (d \<noteq> [] \<longrightarrow> i < length d)"
    if "stack st = QuestionScreen d' i a sel # rest" for d' i a sel rest
    using inv that by (auto simp: session_inv_def)
  have push: "\<exists>st'. dispatch PressNext st = Some st'
             \<and> stack st' = QuestionScreen d (i + 1) (next_free st) [] # stack st
             \<and> position st' = position st + 1"
    if "stack st = QuestionScreen d i a sel # rest" "sel \<noteq> []" "i + 1 < length d"
    for i a sel rest
  proof -
    from that have "dispatch PressNext st = Some (handleNext d i a sel st)"
      by (simp add: dispatch_PressNext)
    with that show ?thesis
      by (simp add: handleNext_stack position_def)
  qed
  have last: "\<exists>st'. dispatch PressNext st = Some st'
             \<and> stack st' = SummaryScreen d (next_free st) # rest \<and> graded st'
             \<and> length (heap st' (next_free st)) = length d"
    if top: "stack st = QuestionScreen d i a sel # rest" and sel: "sel \<noteq> []"
      and i: "i + 1 = length d"
    for i a sel rest
  proof -
    from top sel i have d: "dispatch PressNext st = Some (handleNext d i a sel st)"
      by (simp add: dispatch_PressNext)
    from inv top have "length (heap st a) = i"
      by (simp add: session_inv_def)
    then have "length (heap (handleNext d i a sel st) (next_free st)) = length d"
      using i by (simp add: handleNext_heap array_set_length)
    with d top i show ?thesis
      by (simp add: handleNext_stack graded_def)
  qed
  have gr: "graded st \<longrightarrow>
          d \<noteq> [] \<and> position st = length d \<and> dispatch PressNext st = None
          \<and> (\<forall>idx. dispatch (PressChoice idx) st = None)"
  proof
    assume g: "graded st"
    then obtain s rest where st: "stack st = s # rest" and su: "is_summary s"
      by (auto simp: graded_def split: list.splits)
    from su obtain d' a where s: "s = SummaryScreen d' a"
      by (cases s) simp_all
    with inv st have "d' = d" "d \<noteq> []"
      by (simp_all add: session_inv_def)
    with st s have "d \<noteq> [] \<and> position st = length d"
      by (simp add: position_def)
    with g show "d \<noteq> [] \<and> position st = length d \<and> dispatch PressNext st = None
          \<and> (\<forall>idx. dispatch (PressChoice idx) st = None)"
      by (simp add: dispatch_graded)
  qed
  have pops: "dispatch PressBack st = Some (st\<lparr>stack := s' # rest\<rparr>)
          \<and> \<not> is_summary s'
          \<and> Suc (screen_position s') = (if is_summary s then length d - 1 else screen_position s)"
    if st: "stack st = s # s' # rest" for s s' rest
  proof -
    have q: "\<not> is_summary s'" and p: "Suc (screen_position s') = screens_beneath s"
      using session_inv_goBack(2,3)[OF inv st] by simp_all
    from inv st have ok: "screen_ok d st s"
      by (simp add: session_inv_def)
    have b: "screens_beneath s = (if is_summary s then length d - 1 else screen_position s)"
      using ok by (cases s) auto
    have "i < length d'" if "s = QuestionScreen d' i a sel" for d' i a sel
      using that ok p by auto
    with st have "dispatch PressBack st = Some (st\<lparr>stack := s' # rest\<rparr>)"
      by (auto simp: dispatch_PressBack)
    with q p b show ?thesis by simp
  qed
  have bottom: "dispatch PressBack st = None" if "stack st = [s]" for s
  proof (cases "dispatch PressBack st")
    case None
    then show ?thesis .
  next
    case (Some st')
    with that show ?thesis by (auto simp: dispatch_PressBack)
  qed
  have top_all: "\<forall>d' i a sel rest. stack st = QuestionScreen d' i a sel # rest \<longrightarrow>
          d' = d \<and> length (heap st a) = i \<and> (d \<noteq> [] \<longrightarrow> i < length d)"
    using top by blast
  have push_all: "\<forall>i a sel rest.
          stack st = QuestionScreen d i a sel # rest \<and> sel \<noteq> [] \<and> i + 1 < length d \<longrightarrow>
          (\<exists>st'. dispatch PressNext st = Some st'
             \<and> stack st' = QuestionScreen d (i + 1) (next_free st) [] # stack st
             \<and> position st' = position st + 1)"
    using push by blast
  have last_all: "\<forall>i a sel rest.
          stack st = QuestionScreen d i a sel # rest \<and> sel \<noteq> [] \<and> i + 1 = length d \<longrightarrow>
          (\<exists>st'. dispatch PressNext st = Some st'
             \<and> stack st' = SummaryScreen d (next_free st) # rest \<and> graded st'
             \<and> length (heap st' (next_free st)) = length d)"
    using last by blast
  have back_all: "\<forall>s s' rest. stack st = s # s' # rest \<longrightarrow>
          dispatch PressBack st = Some (st\<lparr>stack := s' # rest\<rparr>)
          \<and> \<not> is_summary s'
          \<and> Suc (screen_position s') = (if is_summary s then length d - 1 else screen_position s)"
    using pops by blast
  have bottom_all: "\<forall>s. stack st = [s] \<longrightarrow> dispatch PressBack st = None"
    using bottom by blast
  from ne top_all push_all last_all gr back_all bottom_all show ?thesis
    by (intro conjI)
qed

theorem session_state_machine_witness:
  "run sample_presses (launch quizData) = Some sample_graded
   \<and> graded sample_graded
   \<and> position sample_graded = length quizData
   \<and> dispatch PressNext sample_graded = None
   \<and> stack sample_graded =
       [SummaryScreen quizData 3, QuestionScreen quizData 1 1 [1, 3],
        QuestionScreen quizData 0 0 [1]]
   \<and> dispatch PressBack sample_graded =
       Some (sample_graded\<lparr>stack :=
         [QuestionScreen quizData 1 1 [1, 3], QuestionScreen quizData 0 0 [1]]\<rparr>)"
proof -
  have r: "run sample_presses (launch quizData) = Some sample_graded"
    using App_session by (simp add: App_def)
  note t = session_state_machine[OF r]
  have g: "graded sample_graded"
    by (simp add: sample_graded_def graded_def)
  have s: "stack sample_graded =
       [SummaryScreen quizData 3, QuestionScreen quizData 1 1 [1, 3],
        QuestionScreen quizData 0 0 [1]]"
    by (simp add: sample_graded_def)
  from t g have p: "position sample_graded = length quizData"
    and n: "dispatch PressNext sample_graded = None"
    by blast+
  from t s have b: "dispatch PressBack sample_graded =
       Some (sample_graded\<lparr>stack :=
         [QuestionScreen quizData 1 1 [1, 3], QuestionScreen quizData 0 0 [1]]\<rparr>)"
    by blast
  from r g p n s b show ?thesis
    by (intro conjI)
qed

text \<open>
  C6. Whatever the type of the question, the Next button is disabled exactly when the
  selection holds no index; pressing Next has a transition exactly when the selection is
  not empty, and every transition of Next commits a selection that is not empty.
\<close>

theorem next_disabled_iff_empty:
  "(Question d i sel = Inr view \<longrightarrow> (next_disabled view \<longleftrightarrow> set sel = {}))
   \<and> (stack st = QuestionScreen d i a sel # rest \<and> i < length d \<longrightarrow>
        (dispatch PressNext st = None \<longleftrightarrow> set sel = {}))
   \<and> (dispatch PressNext st = Some st' \<longrightarrow>
        (\<exists>d i a sel rest. stack st = QuestionScreen d i a sel # rest \<and> set sel \<noteq> {}
           \<and> st' = handleNext d i a sel st))"
proof -
  have "dispatch PressNext st = None \<longleftrightarrow> set sel = {}"
    if "stack st = QuestionScreen d i a sel # rest" "i < length d"
    using that by (simp add: dispatch_def Question_def)
  then show ?thesis
    by (auto simp: Question_Inr_iff dispatch_PressNext)
qed

theorem next_disabled_iff_empty_witness:
  "Question quizData 0 [] =
     Inr \<lparr>shown_prompt = ''Which of the following is a fruit?'', choice_buttons = 4,
          next_disabled = True\<rparr>
   \<and> stack (launch quizData) = [QuestionScreen quizData 0 0 []] \<and> 0 < length quizData
   \<and> dispatch PressNext (launch quizData) = None
   \<and> dispatch PressNext
        \<lparr>heap = (\<lambda>a. []), next_free = 1, stack = [QuestionScreen quizData 0 0 [2]]\<rparr> =
      Some (handleNext quizData 0 0 [2] \<lparr>heap = (\<lambda>a. []), next_free = 1,
                                        stack = [QuestionScreen quizData 0 0 [2]]\<rparr>)"
proof -
  have h1: "Question quizData 0 [] =
     Inr \<lparr>shown_prompt = ''Which of the following is a fruit?'', choice_buttons = 4,
          next_disabled = True\<rparr>"
    by (simp add: Question_def quizData_def)
  have h2: "stack (launch quizData) = [QuestionScreen quizData 0 0 []] \<and> 0 < length quizData"
    by (simp add: launch_def quizData_def)
  let ?st = "\<lparr>heap = (\<lambda>a. []), next_free = 1, stack = [QuestionScreen quizData 0 0 [2]]\<rparr>"
  have h3: "stack ?st = QuestionScreen quizData 0 0 [2] # [] \<and> 0 < length quizData"
    by (simp add: quizData_def)
  note t1 = next_disabled_iff_empty[where d = quizData and i = 0 and sel = "[]" and st = "launch quizData"
      and a = 0 and rest = "[]"]
  note t2 = next_disabled_iff_empty[where d = quizData and i = 0 and sel = "[2]" and st = ?st
      and a = 0 and rest = "[]"]
  from t1 h2 have n: "dispatch PressNext (launch quizData) = None"
    by simp
  from t2 h3 have "dispatch PressNext ?st \<noteq> None"
    by simp
  then obtain st' where s: "dispatch PressNext ?st = Some st'"
    by auto
  with next_disabled_iff_empty[where st = ?st and st' = st'] have "st' = handleNext quizData 0 0 [2] ?st"
    by auto
  with s h1 h2 n show ?thesis by simp
qed

text \<open>
  C7. \<^verbatim>\<open>handleNext\<close> writes the selection at the position of the question into a newly
  allocated copy of the answer array: the copy holds the selection at that position,
  whatever was there before, and reads as the received array at every other position. The
  received array, and every other array allocated before, is left as it was, so the
  screens below keep their answers.
\<close>

theorem handleNext_writes_own_copy:
  assumes "a < next_free st"
  shows "(stack (handleNext d i a sel st) = QuestionScreen d (i + 1) (next_free st) [] # stack st
          \<or> stack (handleNext d i a sel st) = SummaryScreen d (next_free st) # tl (stack st))
    \<and> next_free st \<noteq> a
    \<and> array_get (heap (handleNext d i a sel st) (next_free st)) i = Some sel
    \<and> (\<forall>j. j \<noteq> i \<longrightarrow>
          array_get (heap (handleNext d i a sel st) (next_free st)) j = array_get (heap st a) j)
    \<and> (\<forall>b. b < next_free st \<longrightarrow> heap (handleNext d i a sel st) b = heap st b)
    \<and> heap (handleNext d i a sel st) a = heap st a"
  using assms
  by (simp add: handleNext_stack handleNext_heap array_get_set_same array_get_set_other)

theorem handleNext_writes_own_copy_witness:
  "(0::nat) < next_free \<lparr>heap = (\<lambda>a. [Some [0], Some [3]]), next_free = 1,
                         stack = [QuestionScreen quizData 0 0 [1]]\<rparr>
   \<and> heap (handleNext quizData 0 0 [1]
        \<lparr>heap = (\<lambda>a. [Some [0], Some [3]]), next_free = 1,
          stack = [QuestionScreen quizData 0 0 [1]]\<rparr>) 1 = [Some [1], Some [3]]
   \<and> heap (handleNext quizData 0 0 [1]
        \<lparr>heap = (\<lambda>a. [Some [0], Some [3]]), next_free = 1,
          stack = [QuestionScreen quizData 0 0 [1]]\<rparr>) 0 = [Some [0], Some [3]]"
proof -
  let ?st = "\<lparr>heap = (\<lambda>a. [Some [0], Some [3]]), next_free = 1,
          stack = [QuestionScreen quizData 0 0 [1]]\<rparr>"
  have h: "0 < next_free ?st" by simp
  have n: "heap (handleNext quizData 0 0 [1] ?st) 1 = [Some [1], Some [3]]"
    by (simp add: handleNext_def array_set_def Let_def)
  from handleNext_writes_own_copy[OF h, of quizData 0 "[1]"] have "heap (handleNext quizData 0 0 [1] ?st) 0 = heap ?st 0"
    by blast
  with h n show ?thesis by simp
qed


section \<open>The claims about selecting\<close>

text \<open>
  C8. For a question of type multiple-choice or true-false, selecting a choice makes the
  selection the one-element array of that choice, whatever was selected before; selecting
  \<open>a\<close> and then a different \<open>b\<close> leaves exactly \<open>b\<close> selected.
\<close>

theorem handleSelect_single_replaces:
  assumes "type question = multiple_choice \<or> type question = true_false"
  shows "handleSelect (isMultipleAnswer question) v prev = [v]
    \<and> set (handleSelect (isMultipleAnswer question) v prev) = {v}
    \<and> (a \<noteq> b \<longrightarrow>
         set (handleSelect (isMultipleAnswer question) b
                (handleSelect (isMultipleAnswer question) a prev)) = {b})"
  using assms by (auto simp: handleSelect_def isMultipleAnswer_def)

theorem handleSelect_single_replaces_witness:
  "(type (quizData ! 0) = multiple_choice \<or> type (quizData ! 0) = true_false) \<and> (0::int) \<noteq> 2
   \<and> handleSelect (isMultipleAnswer (quizData ! 0)) 2
        (handleSelect (isMultipleAnswer (quizData ! 0)) 0 [3]) = [2]"
proof -
  have h: "type (quizData ! 0) = multiple_choice \<or> type (quizData ! 0) = true_false"
    by (simp add: quizData_def)
  from handleSelect_single_replaces[OF h, of 2 "handleSelect (isMultipleAnswer (quizData ! 0)) 0 [3]"] h
  show ?thesis by simp
qed

text \<open>
  C9. For a question of type multiple-answer, selecting a choice removes it from the
  selection when it is there and adds it otherwise; the other selected indices stay. A
  selection without repetitions stays so, and grading gives the same result for every
  reordering of the selection.
\<close>

theorem handleSelect_multiple_toggles:
  assumes "type question = multiple_answer"
  shows "set (handleSelect (isMultipleAnswer question) v prev) =
       (if v \<in> set prev then set prev - {v} else insert v (set prev))
    \<and> (distinct prev \<longrightarrow> distinct (handleSelect (isMultipleAnswer question) v prev))
    \<and> (\<forall>c sel'. mset sel' = mset (handleSelect (isMultipleAnswer question) v prev) \<longrightarrow>
          getCorrect c (Some sel') =
          getCorrect c (Some (handleSelect (isMultipleAnswer question) v prev)))"
proof -
  from assms have m: "isMultipleAnswer question = True"
    by (simp add: isMultipleAnswer_def)
  have s: "set (handleSelect (isMultipleAnswer question) v prev) =
       (if v \<in> set prev then set prev - {v} else insert v (set prev))"
    unfolding m by (rule handleSelect_multi_set)
  have d: "distinct prev \<longrightarrow> distinct (handleSelect (isMultipleAnswer question) v prev)"
    by (simp add: handleSelect_distinct)
  have g: "\<forall>c sel'. mset sel' = mset (handleSelect (isMultipleAnswer question) v prev) \<longrightarrow>
          getCorrect c (Some sel') =
          getCorrect c (Some (handleSelect (isMultipleAnswer question) v prev))"
    by (intro allI impI) (rule getCorrect_mset)
  from s d g show ?thesis
    by (intro conjI)
qed

theorem handleSelect_multiple_toggles_witness:
  "type (quizData ! 1) = multiple_answer
   \<and> handleSelect (isMultipleAnswer (quizData ! 1)) 3 [1] = [1, 3]
   \<and> handleSelect (isMultipleAnswer (quizData ! 1)) 1 [1, 3] = [3]
   \<and> set (handleSelect (isMultipleAnswer (quizData ! 1)) 1 [1, 3]) = {3}
   \<and> getCorrect (IndexArray [1, 3]) (Some [3, 1]) =
     getCorrect (IndexArray [1, 3]) (Some (handleSelect (isMultipleAnswer (quizData ! 1)) 3 [1]))"
proof -
  have h: "type (quizData ! 1) = multiple_answer"
    by (simp add: quizData_def)
  have e1: "handleSelect (isMultipleAnswer (quizData ! 1)) 3 [1] = [1, 3]"
    and e2: "handleSelect (isMultipleAnswer (quizData ! 1)) 1 [1, 3] = [3]"
    by (simp_all add: quizData_def isMultipleAnswer_def handleSelect_def)
  have m: "mset [3, 1 :: int] = mset (handleSelect (isMultipleAnswer (quizData ! 1)) 3 [1])"
    unfolding e1 by simp
  note t1 = handleSelect_multiple_toggles[OF h, of 1 "[1, 3]"]
  note t2 = handleSelect_multiple_toggles[OF h, of 3 "[1]"]
  have "set (handleSelect (isMultipleAnswer (quizData ! 1)) 1 [1, 3]) =
      (if (1::int) \<in> set [1, 3] then set [1, 3] - {1} else insert 1 (set [1, 3]))"
    using t1 by (rule conjunct1)
  also have "\<dots> = {3}"
    by auto
  finally have s: "set (handleSelect (isMultipleAnswer (quizData ! 1)) 1 [1, 3]) = {3}" .
  have g: "getCorrect (IndexArray [1, 3]) (Some [3, 1]) =
     getCorrect (IndexArray [1, 3]) (Some (handleSelect (isMultipleAnswer (quizData ! 1)) 3 [1]))"
    using t2[THEN conjunct2, THEN conjunct2, rule_format, OF m] .
  from h e1 e2 s g show ?thesis
    by (intro conjI)
qed

text \<open>
  C10. For a question of type multiple-answer, selecting the same choice twice in a row
  gives back the selection from before, as a set; for a selection without repetitions
  also as a multiset.
\<close>

theorem handleSelect_multiple_involution:
  assumes "type question = multiple_answer"
  shows "set (handleSelect (isMultipleAnswer question) x
            (handleSelect (isMultipleAnswer question) x prev)) = set prev
    \<and> (distinct prev \<longrightarrow>
         mset (handleSelect (isMultipleAnswer question) x
            (handleSelect (isMultipleAnswer question) x prev)) = mset prev)"
  using assms
  by (simp add: isMultipleAnswer_def handleSelect_twice handleSelect_twice_mset)

theorem handleSelect_multiple_involution_witness:
  "type (quizData ! 1) = multiple_answer \<and> distinct [1, 3 :: int]
   \<and> handleSelect (isMultipleAnswer (quizData ! 1)) 1 [1, 3] = [3]
   \<and> handleSelect (isMultipleAnswer (quizData ! 1)) 1 [3] = [3, 1]
   \<and> set (handleSelect (isMultipleAnswer (quizData ! 1)) 1
        (handleSelect (isMultipleAnswer (quizData ! 1)) 1 [1, 3])) = set [1, 3]"
proof -
  have h: "type (quizData ! 1) = multiple_answer"
    by (simp add: quizData_def)
  have e1: "handleSelect (isMultipleAnswer (quizData ! 1)) 1 [1, 3] = [3]"
    and e2: "handleSelect (isMultipleAnswer (quizData ! 1)) 1 [3] = [3, 1]"
    by (simp_all add: quizData_def isMultipleAnswer_def handleSelect_def)
  from handleSelect_multiple_involution[OF h, of 1 "[1, 3]"] have
    "set (handleSelect (isMultipleAnswer (quizData ! 1)) 1
        (handleSelect (isMultipleAnswer (quizData ! 1)) 1 [1, 3])) = set [1, 3]"
    by (rule conjunct1)
  with h e1 e2 show ?thesis by simp
qed


end
